theory Spec2Isabelle
  imports Complex_Main "HOL-Library.AList"
begin

section \<open>JavaScript values\<close>

text \<open>
  The values the filter handles: what \<open>JSON.parse\<close> returns, what the caller puts in
  \<open>opts\<close>, and \<open>undefined\<close> for a missing property. A number is the rational it
  denotes (\<open>-0\<close> is \<open>0\<close>; \<open>NaN\<close> and the infinities, which \<open>JSON.parse\<close> gives
  only for literals beyond the double range, are left out). An object is the list of its
  own properties in insertion order (an integer-like key stays where it was inserted),
  read with the first entry of a key; an array carries
  its elements and, beside them, the named properties the line mapper assigns to it
  (\<open>value['@timestamp'] = ...\<close> on an array line). One \<open>char\<close> stands for one code
  unit of a string. Own keys named \<open>__proto__\<close> are outside the model: assigning
  to that name goes through the prototype setter.
\<close>

datatype jsval =
    JUndefined
  | JNull
  | JBool bool
  | JNum rat
  | JStr string
  | JArr "jsval list" "(string \<times> jsval) list"
  | JObj "(string \<times> jsval) list"

datatype error = TypeError | RangeError

text \<open>ToBoolean, and \<open>a || b\<close>.\<close>

fun truthy :: "jsval \<Rightarrow> bool" where
  "truthy JUndefined = False"
| "truthy JNull = False"
| "truthy (JBool b) = b"
| "truthy (JNum n) = (n \<noteq> 0)"
| "truthy (JStr s) = (s \<noteq> [])"
| "truthy (JArr xs ps) = True"
| "truthy (JObj kvs) = True"

definition js_or :: "jsval \<Rightarrow> jsval \<Rightarrow> jsval" where
  "js_or a b = (if truthy a then a else b)"

text \<open>\<open>typeof v === "object"\<close> holds of \<open>null\<close>, of arrays and of objects.\<close>

fun typeof_object :: "jsval \<Rightarrow> bool" where
  "typeof_object JNull = True"
| "typeof_object (JArr xs ps) = True"
| "typeof_object (JObj kvs) = True"
| "typeof_object v = False"

fun isArray :: "jsval \<Rightarrow> bool" where
  "isArray (JArr xs ps) = True"
| "isArray v = False"

text \<open>\<open>isObject\<close> of \<open>mergeDeep\<close>: \<open>obj && typeof obj === "object"\<close>.\<close>

definition isObject :: "jsval \<Rightarrow> bool" where
  "isObject v = (truthy v \<and> typeof_object v)"

subsection \<open>Own properties\<close>

text \<open>
  The named own properties of a value, and reading, writing and deleting one by a name that
  is not an array index: \<open>v.k\<close>, \<open>v[k] = x\<close>, \<open>delete v.k\<close>. A missing property
  reads as \<open>undefined\<close> (none of the names the program reads is on a prototype, except
  \<open>hasOwnProperty\<close> and \<open>substring\<close>, which are treated where they are called). An
  assignment keeps the position of an existing key and appends a new one.
\<close>

fun named_props :: "jsval \<Rightarrow> (string \<times> jsval) list" where
  "named_props (JObj kvs) = kvs"
| "named_props (JArr xs ps) = ps"
| "named_props v = []"

definition has_own :: "jsval \<Rightarrow> string \<Rightarrow> bool" where
  "has_own v k = (map_of (named_props v) k \<noteq> None)"

definition get_prop :: "jsval \<Rightarrow> string \<Rightarrow> jsval" where
  "get_prop v k = (case map_of (named_props v) k of None \<Rightarrow> JUndefined | Some x \<Rightarrow> x)"

fun set_prop :: "jsval \<Rightarrow> string \<Rightarrow> jsval \<Rightarrow> jsval" where
  "set_prop (JObj kvs) k x = JObj (AList.update k x kvs)"
| "set_prop (JArr xs ps) k x = JArr xs (AList.update k x ps)"
| "set_prop v k x = v"

fun delete_prop :: "jsval \<Rightarrow> string \<Rightarrow> jsval" where
  "delete_prop (JObj kvs) k = JObj (AList.delete k kvs)"
| "delete_prop (JArr xs ps) k = JArr xs (AList.delete k ps)"
| "delete_prop v k = v"

text \<open>Decimal index keys, for the own keys of an array or a string.\<close>

fun show_nat :: "nat \<Rightarrow> string" where
  "show_nat n =
     (if n < 10 then [''0123456789'' ! n]
      else show_nat (n div 10) @ [''0123456789'' ! (n mod 10)])"

declare show_nat.simps [simp del]

definition index_keys :: "nat \<Rightarrow> string list" where
  "index_keys n = map show_nat [0..<n]"

text \<open>
  \<open>Object.keys(obj)\<close> paired with \<open>obj[key]\<close>: index keys first, then the named
  properties, each key once. \<open>Object.keys\<close> throws on \<open>null\<close> and \<open>undefined\<close>.
\<close>

fun own_entries :: "jsval \<Rightarrow> error + (string \<times> jsval) list" where
  "own_entries JUndefined = Inl TypeError"
| "own_entries JNull = Inl TypeError"
| "own_entries (JBool b) = Inr []"
| "own_entries (JNum n) = Inr []"
| "own_entries (JStr s) = Inr (zip (index_keys (length s)) (map (\<lambda>c. JStr [c]) s))"
| "own_entries (JArr xs ps) = Inr (zip (index_keys (length xs)) xs @ AList.clearjunk ps)"
| "own_entries (JObj kvs) = Inr (AList.clearjunk kvs)"

section \<open>The host: clock and dates\<close>

text \<open>
  \<open>new Date()\<close> reads the clock and \<open>new Date(s)\<close> parses a string with
  \<open>Date.parse\<close>, whose result on strings outside the ISO format is the engine's own:
  both are fields of the host. A time value is a count of milliseconds since the epoch;
  \<open>None\<close> is \<open>NaN\<close>, the invalid date.
\<close>

record host =
  clock :: int
  date_parse :: "string \<Rightarrow> int option"

text \<open>TimeClip: beyond 8.64e15 ms the date is invalid; a fraction is cut off towards zero.\<close>

definition time_clip :: "rat \<Rightarrow> int option" where
  "time_clip t =
     (if \<bar>t\<bar> > 8640000000000000 then None
      else Some (if 0 \<le> t then \<lfloor>t\<rfloor> else \<lceil>t\<rceil>))"

text \<open>\<open>new Date(v)\<close> for a string or a number \<open>v\<close>, the two types the program passes.\<close>

fun new_Date :: "host \<Rightarrow> jsval \<Rightarrow> int option" where
  "new_Date h (JStr s) = (case date_parse h s of None \<Rightarrow> None | Some t \<Rightarrow> time_clip (of_int t))"
| "new_Date h (JNum n) = time_clip n"
| "new_Date h v = None"

definition pad :: "nat \<Rightarrow> nat \<Rightarrow> string" where
  "pad w n = replicate (w - length (show_nat n)) (CHR ''0'') @ show_nat n"

text \<open>The civil date of a day number (days since 1970-01-01), proleptic Gregorian.\<close>

definition civil_from_days :: "int \<Rightarrow> int \<times> int \<times> int" where
  "civil_from_days days =
     (let z = days + 719468;
          era = z div 146097;
          doe = z mod 146097;
          yoe = (doe - doe div 1460 + doe div 36524 - doe div 146096) div 365;
          doy = doe - (365 * yoe + yoe div 4 - yoe div 100);
          mp = (5 * doy + 2) div 153;
          d = doy - (153 * mp + 2) div 5 + 1;
          m = (if mp < 10 then mp + 3 else mp - 9);
          y = yoe + era * 400 + (if m \<le> 2 then 1 else 0)
      in (y, m, d))"

definition iso_year :: "int \<Rightarrow> string" where
  "iso_year y =
     (if 0 \<le> y \<and> y \<le> 9999 then pad 4 (nat y)
      else (if y < 0 then ''-'' else ''+'') @ pad 6 (nat \<bar>y\<bar>))"

text \<open>\<open>toISOString\<close> of a valid date: \<open>YYYY-MM-DDTHH:mm:ss.sssZ\<close> in UTC.\<close>

definition iso_string :: "int \<Rightarrow> string" where
  "iso_string t =
     (let (y, m, d) = civil_from_days (t div 86400000);
          ms = t mod 86400000
      in iso_year y @ ''-'' @ pad 2 (nat m) @ ''-'' @ pad 2 (nat d) @ ''T''
         @ pad 2 (nat (ms div 3600000)) @ '':'' @ pad 2 (nat (ms div 60000 mod 60)) @ '':''
         @ pad 2 (nat (ms div 1000 mod 60)) @ ''.'' @ pad 3 (nat (ms mod 1000)) @ ''Z'')"

text \<open>\<open>toISOString\<close> throws a RangeError on the invalid date.\<close>

definition toISOString :: "int option \<Rightarrow> error + string" where
  "toISOString d = (case d of None \<Rightarrow> Inl RangeError | Some t \<Rightarrow> Inr (iso_string t))"

definition now_iso :: "host \<Rightarrow> string" where
  "now_iso h = iso_string (clock h)"

section \<open>setDateTimeString\<close>

text \<open>
  \<open>value.hasOwnProperty(k)\<close>: on \<open>null\<close> the property read throws; an own property
  named \<open>hasOwnProperty\<close> shadows the method, and no value of the model is callable.
\<close>

definition call_hasOwnProperty :: "jsval \<Rightarrow> string \<Rightarrow> error + bool" where
  "call_hasOwnProperty v k =
     (if v = JNull \<or> v = JUndefined then Inl TypeError
      else if has_own v ''hasOwnProperty'' then Inl TypeError
      else Inr (has_own v k))"

fun time_usable :: "jsval \<Rightarrow> bool" where
  "time_usable (JStr s) = (length s \<noteq> 0)"
| "time_usable (JNum n) = (n \<ge> 0)"
| "time_usable v = False"

definition setDateTimeString :: "host \<Rightarrow> jsval \<Rightarrow> error + string" where
  "setDateTimeString h v =
     (if typeof_object v then
        (case call_hasOwnProperty v ''time'' of
           Inl e \<Rightarrow> Inl e
         | Inr has \<Rightarrow>
             if has \<and> time_usable (get_prop v ''time'')
             then toISOString (new_Date h (get_prop v ''time''))
             else Inr (now_iso h))
      else Inr (now_iso h))"

section \<open>mergeDeep\<close>

text \<open>
  \<open>pVal.concat(...oVal)\<close>: the spread passes each element of \<open>oVal\<close> as an argument
  of \<open>concat\<close>, and \<open>concat\<close> appends the elements of an argument that is an array
  and appends any other argument itself. The result is a fresh array.
\<close>

fun spread_arg :: "jsval \<Rightarrow> jsval list" where
  "spread_arg (JArr zs ps) = zs"
| "spread_arg v = [v]"

fun array_elems :: "jsval \<Rightarrow> jsval list" where
  "array_elems (JArr xs ps) = xs"
| "array_elems v = []"

definition concat_spread :: "jsval \<Rightarrow> jsval \<Rightarrow> jsval" where
  "concat_spread pVal oVal =
     JArr (array_elems pVal @ concat (map spread_arg (array_elems oVal))) []"

text \<open>
  The body of the \<open>forEach\<close>, for one key of \<open>obj\<close> and the accumulator \<open>prev\<close>;
  \<open>rec\<close> is the recursive call \<open>mergeDeep(pVal, oVal)\<close>. \<open>None\<close> is a call that has
  not returned.
\<close>

definition merge_key ::
  "(jsval list \<Rightarrow> (error + jsval) option) \<Rightarrow> string \<times> jsval \<Rightarrow> jsval \<Rightarrow> (error + jsval) option"
where
  "merge_key rec kv prev =
     (let key = fst kv; oVal = snd kv; pVal = get_prop prev key in
      if isArray pVal \<and> isArray oVal then Some (Inr (set_prop prev key (concat_spread pVal oVal)))
      else if isObject pVal \<and> isObject oVal then
        (case rec [pVal, oVal] of
           None \<Rightarrow> None
         | Some (Inl e) \<Rightarrow> Some (Inl e)
         | Some (Inr m) \<Rightarrow> Some (Inr (set_prop prev key m)))
      else Some (Inr (set_prop prev key oVal)))"

fun forEach_key ::
  "(jsval list \<Rightarrow> (error + jsval) option) \<Rightarrow> (string \<times> jsval) list \<Rightarrow> jsval \<Rightarrow> (error + jsval) option"
where
  "forEach_key rec [] prev = Some (Inr prev)"
| "forEach_key rec (kv # kvs) prev =
     (case merge_key rec kv prev of
        Some (Inr prev') \<Rightarrow> forEach_key rec kvs prev'
      | r \<Rightarrow> r)"

text \<open>The reducer \<open>(prev, obj) => { Object.keys(obj).forEach(...); return prev }\<close>.\<close>

definition reducer ::
  "(jsval list \<Rightarrow> (error + jsval) option) \<Rightarrow> jsval \<Rightarrow> jsval \<Rightarrow> (error + jsval) option"
where
  "reducer rec prev obj =
     (case own_entries obj of
        Inl e \<Rightarrow> Some (Inl e)
      | Inr es \<Rightarrow> forEach_key rec es prev)"

fun reduce_objects ::
  "(jsval list \<Rightarrow> (error + jsval) option) \<Rightarrow> jsval list \<Rightarrow> jsval \<Rightarrow> (error + jsval) option"
where
  "reduce_objects rec [] prev = Some (Inr prev)"
| "reduce_objects rec (obj # objs) prev =
     (case reducer rec prev obj of
        Some (Inr prev') \<Rightarrow> reduce_objects rec objs prev'
      | r \<Rightarrow> r)"

text \<open>
  \<open>mergeDeep(...objects)\<close> with a bound on the depth of its recursion:
  \<open>objects.reduce(reducer, {})\<close>.
\<close>

primrec mergeDeepN :: "nat \<Rightarrow> jsval list \<Rightarrow> (error + jsval) option" where
  "mergeDeepN 0 objs = None"
| "mergeDeepN (Suc n) objs = reduce_objects (mergeDeepN n) objs (JObj [])"

text \<open>The nesting depth of a value bounds the recursion (see \<open>mergeDeepN_returns\<close>).\<close>

fun depth :: "jsval \<Rightarrow> nat" where
  "depth (JArr xs ps) = Suc (max (fold max (map depth xs) 0) (fold max (map (\<lambda>p. depth (snd p)) ps) 0))"
| "depth (JObj kvs) = Suc (fold max (map (\<lambda>p. depth (snd p)) kvs) 0)"
| "depth v = 0"

definition mergeDeep :: "jsval list \<Rightarrow> (error + jsval) option" where
  "mergeDeep objs = mergeDeepN (Suc (fold max (map depth objs) 0)) objs"

text \<open>\<open>Object.keys\<close> throws exactly on these two.\<close>

definition nullish :: "jsval \<Rightarrow> bool" where
  "nullish v \<longleftrightarrow> v = JNull \<or> v = JUndefined"

text \<open>What the proof that the recursion returns asks of the recursive call at depth \<open>n\<close>.\<close>

definition rec_ok :: "(jsval list \<Rightarrow> (error + jsval) option) \<Rightarrow> nat \<Rightarrow> bool" where
  "rec_ok rec n \<longleftrightarrow>
     (\<forall>p oV. isObject p \<and> isObject oV \<and> depth p \<le> n \<and> depth oV \<le> n
        \<longrightarrow> (\<exists>v. rec [p, oV] = Some (Inr v) \<and> depth v \<le> n))"

section \<open>The line mapper\<close>

text \<open>
  What one call of the function given to \<open>split\<close> does: the value it returns
  (\<open>None\<close> for a bare \<open>return\<close>, which \<open>split2\<close> does not push), the events it
  emits on the stream (name, line, reason) and the lines it writes with
  \<open>console.log\<close>. A call that throws is \<open>Inl\<close>. \<open>JSON.parse\<close> is the host's: the
  mapper takes the line together with what \<open>JSON.parse\<close> made of it, \<open>None\<close> when it
  threw.
\<close>

record outcome =
  document :: "jsval option"
  emitted :: "(string \<times> string \<times> string) list"
  console :: "string list"

definition ignored :: "string \<Rightarrow> string \<Rightarrow> outcome" where
  "ignored line reason =
     \<lparr>document = None, emitted = [(''unknown'', line, reason)], console = []\<rparr>"

definition logged :: "string \<Rightarrow> outcome" where
  "logged line = \<lparr>document = None, emitted = [], console = [line]\<rparr>"

definition forwarded :: "jsval \<Rightarrow> outcome" where
  "forwarded doc = \<lparr>document = Some doc, emitted = [], console = []\<rparr>"

text \<open>The two branches on a parsed value that is neither a boolean nor \<open>null\<close>, as
  \<open>src/lib.js\<close> has them: \<open>@timestamp\<close> is set only when the value has none.\<close>

definition shape_lib :: "host \<Rightarrow> jsval \<Rightarrow> error + jsval" where
  "shape_lib h value =
     (if \<not> typeof_object value then
        (case setDateTimeString h value of
           Inl e \<Rightarrow> Inl e
         | Inr ts \<Rightarrow> Inr (JObj [(''data'', value), (''@timestamp'', JStr ts)]))
      else if get_prop value ''@timestamp'' = JUndefined then
        (case setDateTimeString h value of
           Inl e \<Rightarrow> Inl e
         | Inr ts \<Rightarrow> Inr (set_prop value ''@timestamp'' (JStr ts)))
      else Inr value)"

definition lineMapper_lib :: "host \<Rightarrow> string \<Rightarrow> jsval option \<Rightarrow> error + outcome" where
  "lineMapper_lib h line parsed =
     (case parsed of
        None \<Rightarrow> Inr (logged line)
      | Some (JBool b) \<Rightarrow> Inr (ignored line ''Boolean value ignored'')
      | Some JNull \<Rightarrow> Inr (ignored line ''Null value ignored'')
      | Some value \<Rightarrow>
          (case shape_lib h value of
             Inl e \<Rightarrow> Inl e
           | Inr doc \<Rightarrow> Inr (forwarded doc)))"

text \<open>The same branches in the second source file (\<open>src/unnamed/part_000\<close>): \<open>message\<close>
  from \<open>msg\<close>, \<open>@timestamp\<close> always recomputed, \<open>msg\<close> and \<open>time\<close> deleted when
  truthy.\<close>

definition shape :: "host \<Rightarrow> jsval \<Rightarrow> error + jsval" where
  "shape h value =
     (if \<not> typeof_object value then
        (case setDateTimeString h value of
           Inl e \<Rightarrow> Inl e
         | Inr ts \<Rightarrow> Inr (JObj [(''data'', value), (''@timestamp'', JStr ts)]))
      else
        (let v1 = set_prop value ''message'' (js_or (get_prop value ''msg'') (JStr ''-''));
             v2 = (if truthy (get_prop v1 ''msg'') then delete_prop v1 ''msg'' else v1)
         in case setDateTimeString h v2 of
              Inl e \<Rightarrow> Inl e
            | Inr ts \<Rightarrow>
                (let v3 = set_prop v2 ''@timestamp'' (JStr ts)
                 in Inr (if truthy (get_prop v3 ''time'') then delete_prop v3 ''time'' else v3))))"

text \<open>The mapper of the second file ends in \<open>mergeDeep(value, opts.additionalObject)\<close>;
  \<open>None\<close> is a merge that has not returned.\<close>

definition lineMapper :: "host \<Rightarrow> jsval \<Rightarrow> string \<Rightarrow> jsval option \<Rightarrow> (error + outcome) option" where
  "lineMapper h additionalObject line parsed =
     (case parsed of
        None \<Rightarrow> Some (Inr (logged line))
      | Some (JBool b) \<Rightarrow> Some (Inr (ignored line ''Boolean value ignored''))
      | Some JNull \<Rightarrow> Some (Inr (ignored line ''Null value ignored''))
      | Some value \<Rightarrow>
          (case shape h value of
             Inl e \<Rightarrow> Some (Inl e)
           | Inr v \<Rightarrow>
               (case mergeDeep [v, additionalObject] of
                  None \<Rightarrow> None
                | Some (Inl e) \<Rightarrow> Some (Inl e)
                | Some (Inr doc) \<Rightarrow> Some (Inr (forwarded doc)))))"

section \<open>The bulk handler\<close>

text \<open>
  The \<open>index\<close> of the handler, \<open>opts.index || 'pino'\<close>: a template or a naming
  function (\<open>typeof index === 'function'\<close>). \<open>None\<close> is an option that is not set.
\<close>

datatype index_name = IndexTemplate string | IndexFunction "jsval \<Rightarrow> string"

definition index_or_pino :: "index_name option \<Rightarrow> index_name" where
  "index_or_pino i =
     (case i of
        None \<Rightarrow> IndexTemplate ''pino''
      | Some (IndexTemplate t) \<Rightarrow> if t = [] then IndexTemplate ''pino'' else IndexTemplate t
      | Some (IndexFunction f) \<Rightarrow> IndexFunction f)"

text \<open>
  \<open>index.replace(pattern, replacement)\<close> with a string pattern: the first occurrence only,
  and in the replacement \<open>$$\<close>, \<open>$&\<close>, \<open>$`\<close> and \<open>$'\<close> stand for a dollar sign, the
  match, the text in front of it and the text behind it.
\<close>

fun split_first :: "string \<Rightarrow> string \<Rightarrow> (string \<times> string) option" where
  "split_first pat [] = (if pat = [] then Some ([], []) else None)"
| "split_first pat (c # cs) =
     (if take (length pat) (c # cs) = pat then Some ([], drop (length pat) (c # cs))
      else (case split_first pat cs of
              None \<Rightarrow> None
            | Some (pre, post) \<Rightarrow> Some (c # pre, post)))"

fun substitution :: "string \<Rightarrow> string \<Rightarrow> string \<Rightarrow> string \<Rightarrow> string" where
  "substitution matched pre post [] = []"
| "substitution matched pre post [c] = [c]"
| "substitution matched pre post (c # d # r) =
     (if c = CHR ''$'' \<and> d = CHR ''$'' then CHR ''$'' # substitution matched pre post r
      else if c = CHR ''$'' \<and> d = CHR ''&'' then matched @ substitution matched pre post r
      else if c = CHR ''$'' \<and> d = CHR 0x60 then pre @ substitution matched pre post r
      else if c = CHR ''$'' \<and> d = CHR 0x27 then post @ substitution matched pre post r
      else c # substitution matched pre post (d # r))"

definition replace_first :: "string \<Rightarrow> string \<Rightarrow> string \<Rightarrow> string" where
  "replace_first pat repl s =
     (case split_first pat s of
        None \<Rightarrow> s
      | Some (pre, post) \<Rightarrow> pre @ substitution pat pre post repl @ post)"

text \<open>
  \<open>time.substring ? time.substring(0, 10) : ""\<close>. Reading a property of \<open>null\<close> throws; an
  object or array has \<open>substring\<close> only as an own property, and calling it throws since no
  value of the model is callable.
\<close>

fun date_part :: "jsval \<Rightarrow> error + string" where
  "date_part (JStr s) = Inr (take 10 s)"
| "date_part JNull = Inl TypeError"
| "date_part JUndefined = Inl TypeError"
| "date_part v = (if truthy (get_prop v ''substring'') then Inl TypeError else Inr [])"

text \<open>\<open>getIndexName(time = new Date().toISOString())\<close>, over the resolved \<open>index\<close>.\<close>

definition getIndexName :: "host \<Rightarrow> index_name \<Rightarrow> jsval \<Rightarrow> error + string" where
  "getIndexName h index time =
     (let t = (if time = JUndefined then JStr (now_iso h) else time) in
      case index of
        IndexFunction buildIndexName \<Rightarrow> Inr (buildIndexName t)
      | IndexTemplate template \<Rightarrow>
          (case date_part t of
             Inl e \<Rightarrow> Inl e
           | Inr d \<Rightarrow> Inr (replace_first ''%{DATE}'' d template)))"

text \<open>
  \<open>onDocument(doc)\<close>, over the \<open>index\<close> and \<open>opType\<close> of its closure: the document
  as the handler leaves it and the \<open>_index\<close> of the \<open>create\<close> action it returns.
\<close>

definition onDocument :: "host \<Rightarrow> index_name \<Rightarrow> jsval \<Rightarrow> jsval \<Rightarrow> error + jsval \<times> string" where
  "onDocument h index opType doc =
     (let date = js_or (get_prop doc ''time'') (get_prop doc ''@timestamp'');
          doc' = (if opType = JStr ''create'' then set_prop doc ''@timestamp'' date else doc)
      in case getIndexName h index date of
           Inl e \<Rightarrow> Inl e
         | Inr name \<Rightarrow> Inr (doc', name))"

section \<open>The client options\<close>

record options =
  node :: jsval
  auth :: jsval
  caFingerprint :: jsval
  Connection :: jsval
  ConnectionPool :: jsval
  rejectUnauthorized :: jsval
  additionalObject :: jsval

record client_options =
  client_node :: jsval
  client_auth :: jsval
  client_tls_rejectUnauthorized :: bool
  client_caFingerprint :: "jsval option"
  client_Connection :: "jsval option"
  client_ConnectionPool :: "jsval option"

text \<open>\<open>clientOpts\<close> as \<open>pinoElasticSearch\<close> builds it for \<open>new Client(clientOpts)\<close>; the
  three optional fields are set when the option is truthy.\<close>

definition clientOpts :: "options \<Rightarrow> client_options" where
  "clientOpts opts =
     \<lparr>client_node = node opts,
      client_auth = auth opts,
      client_tls_rejectUnauthorized = False,
      client_caFingerprint = (if truthy (caFingerprint opts) then Some (caFingerprint opts) else None),
      client_Connection = (if truthy (Connection opts) then Some (Connection opts) else None),
      client_ConnectionPool =
        (if truthy (ConnectionPool opts) then Some (ConnectionPool opts) else None)\<rparr>"

text \<open>The options \<open>start\<close> is called with at the entry point of \<open>src/lib.js\<close>, as far as the
  client reads them, from the environment.\<close>

definition env_or :: "(string \<Rightarrow> string option) \<Rightarrow> string \<Rightarrow> string \<Rightarrow> string" where
  "env_or env name dflt = (case env name of None \<Rightarrow> dflt | Some s \<Rightarrow> if s = [] then dflt else s)"

definition start_options :: "(string \<Rightarrow> string option) \<Rightarrow> options" where
  "start_options env =
     \<lparr>node = JStr (env_or env ''LOG_ES_HOST'' ''http://localhost:9200''),
      auth = JObj [(''username'', JStr (env_or env ''LOG_ES_USER'' ''elastic'')),
                   (''password'', JStr (env_or env ''LOG_ES_PASS'' ''changeme''))],
      caFingerprint = JUndefined,
      Connection = JUndefined,
      ConnectionPool = JUndefined,
      rejectUnauthorized = JBool (env ''LOG_ES_REJECT_UNAUTHORIZED'' = Some ''true''),
      additionalObject = JUndefined\<rparr>"

text \<open>A plain object, as against an array with named properties.\<close>

fun plain :: "jsval \<Rightarrow> bool" where
  "plain (JObj kvs) = True"
| "plain v = False"

section \<open>A host for the examples\<close>

text \<open>
  The clock stands at 2024-03-05T10:00:00.000Z, and \<open>Date.parse\<close> reads the one date
  string the examples use and takes every other string for an invalid date.
\<close>

definition sample_host :: host where
  "sample_host =
     \<lparr>clock = 1709632800000,
      date_parse = (\<lambda>s. if s = ''2024-01-01T00:00:00.000Z'' then Some 1704067200000 else None)\<rparr>"

text \<open>A JSON string literal, for the text of a line.\<close>

definition quoted :: "string \<Rightarrow> string" where
  "quoted s = CHR 0x22 # s @ [CHR 0x22]"

section \<open>mergeDeep returns\<close>

lemma fold_max_le: "fold max xs (a::nat) \<le> n \<longleftrightarrow> a \<le> n \<and> (\<forall>x\<in>set xs. x \<le> n)"
  by (induction xs arbitrary: a) auto

lemma fold_max_ge: "x \<in> set xs \<Longrightarrow> x \<le> fold max xs (a::nat)"
  using fold_max_le [of xs a "fold max xs a"] by simp

lemma depth_named_props: "(k, x) \<in> set (named_props v) \<Longrightarrow> Suc (depth x) \<le> depth v"
proof (cases v)
  case (JArr xs ps)
  assume "(k, x) \<in> set (named_props v)"
  with JArr have "depth (snd (k, x)) \<in> set (map (\<lambda>p. depth (snd p)) ps)"
    by (simp only: set_map named_props.simps image_eqI)
  from fold_max_ge [OF this, of 0] JArr show ?thesis by simp
next
  case (JObj kvs)
  assume "(k, x) \<in> set (named_props v)"
  with JObj have "depth (snd (k, x)) \<in> set (map (\<lambda>p. depth (snd p)) kvs)"
    by (simp only: set_map named_props.simps image_eqI)
  from fold_max_ge [OF this, of 0] JObj show ?thesis by simp
qed simp_all

lemma depth_array_elems: "x \<in> set (array_elems v) \<Longrightarrow> Suc (depth x) \<le> depth v"
proof (cases v)
  case (JArr xs ps)
  assume "x \<in> set (array_elems v)"
  with JArr have "depth x \<in> set (map depth xs)" by simp
  from fold_max_ge [OF this, of 0] JArr show ?thesis by simp
qed simp_all

lemma depth_get_prop: "depth (get_prop v k) \<le> depth v - 1"
proof (cases "map_of (named_props v) k")
  case None
  then show ?thesis by (simp add: get_prop_def)
next
  case (Some x)
  then have "(k, x) \<in> set (named_props v)" by (rule map_of_SomeD)
  from depth_named_props [OF this] Some show ?thesis by (simp add: get_prop_def)
qed

lemma depth_JObj_le: "depth (JObj kvs) \<le> Suc n \<longleftrightarrow> (\<forall>p\<in>set kvs. depth (snd p) \<le> n)"
  by (simp add: fold_max_le)

lemma depth_JArr_le:
  "depth (JArr xs ps) \<le> Suc n \<longleftrightarrow> (\<forall>x\<in>set xs. depth x \<le> n) \<and> (\<forall>p\<in>set ps. depth (snd p) \<le> n)"
  by (simp add: fold_max_le)

lemma set_update_subset: "set (AList.update k x ps) \<subseteq> insert (k, x) (set ps)"
  by (induction ps) auto

lemma depth_set_prop:
  assumes "depth prev \<le> Suc n" and "depth x \<le> n"
  shows "depth (set_prop prev k x) \<le> Suc n"
proof (cases prev)
  case (JArr xs ps)
  with assms set_update_subset [of k x ps] show ?thesis
    by (simp only: set_prop.simps depth_JArr_le) auto
next
  case (JObj kvs)
  with assms set_update_subset [of k x kvs] show ?thesis
    by (simp only: set_prop.simps depth_JObj_le) auto
qed (use assms in simp_all)

lemma depth_spread_arg: "y \<in> set (spread_arg v) \<Longrightarrow> depth y \<le> depth v"
  using depth_array_elems [of y v] by (cases v) auto

lemma depth_concat_spread:
  assumes "depth pVal \<le> n" and "depth oVal \<le> n" and "isArray pVal"
  shows "depth (concat_spread pVal oVal) \<le> n"
proof -
  from assms(3) obtain xs ps where p: "pVal = JArr xs ps" by (cases pVal) auto
  with assms(1) obtain m where n: "n = Suc m" by (cases n) auto
  have "depth x \<le> m" if "x \<in> set (array_elems pVal)" for x
    using depth_array_elems [OF that] assms(1) n by simp
  moreover have "depth z \<le> m" if "y \<in> set (array_elems oVal)" and "z \<in> set (spread_arg y)" for y z
    using depth_array_elems [OF that(1)] depth_spread_arg [OF that(2)] assms(2) n by simp
  ultimately show ?thesis
    unfolding concat_spread_def n depth_JArr_le by auto
qed

lemma clearjunk_subset: "set (AList.clearjunk ps) \<subseteq> set ps"
proof (induction ps rule: AList.clearjunk.induct)
  case 1
  show ?case by simp
next
  case (2 p ps)
  have "set (AList.delete (fst p) ps) \<subseteq> set ps" by (auto simp: AList.delete_eq)
  with 2 show ?case by auto
qed

lemma depth_own_entries:
  "own_entries obj = Inr es \<Longrightarrow> p \<in> set es \<Longrightarrow> depth (snd p) \<le> depth obj - 1"
proof (cases obj)
  case (JStr s)
  assume "own_entries obj = Inr es" "p \<in> set es"
  with JStr have "snd p \<in> set (map (\<lambda>c. JStr [c]) s)"
    by (cases p) (auto dest: set_zip_rightD)
  then obtain c where "snd p = JStr [c]" by auto
  then show ?thesis by simp
next
  case (JArr xs ps)
  assume "own_entries obj = Inr es" "p \<in> set es"
  with JArr have "snd p \<in> set xs \<or> p \<in> set (AList.clearjunk ps)"
    by (cases p) (auto dest: set_zip_rightD)
  then have "snd p \<in> set (array_elems obj) \<or> (fst p, snd p) \<in> set (named_props obj)"
    using JArr clearjunk_subset [of ps] by auto
  then show ?thesis
    using depth_array_elems [of "snd p" obj] depth_named_props [of "fst p" "snd p" obj] by auto
next
  case (JObj kvs)
  assume "own_entries obj = Inr es" "p \<in> set es"
  with JObj have "p \<in> set (AList.clearjunk kvs)" by auto
  then have "(fst p, snd p) \<in> set (named_props obj)"
    using JObj clearjunk_subset [of kvs] by auto
  then show ?thesis
    using depth_named_props [of "fst p" "snd p" obj] by auto
qed auto

lemma merge_key_returns:
  assumes "rec_ok rec n" and "depth prev \<le> Suc n" and "depth (snd kv) \<le> n"
  shows "\<exists>v. merge_key rec kv prev = Some (Inr v) \<and> depth v \<le> Suc n"
proof -
  let ?p = "get_prop prev (fst kv)"
  have p: "depth ?p \<le> n" using depth_get_prop [of prev "fst kv"] assms(2) by simp
  consider (arr) "isArray ?p \<and> isArray (snd kv)"
    | (obj) "\<not> (isArray ?p \<and> isArray (snd kv))" "isObject ?p \<and> isObject (snd kv)"
    | (other) "\<not> (isArray ?p \<and> isArray (snd kv))" "\<not> (isObject ?p \<and> isObject (snd kv))"
    by blast
  then show ?thesis
  proof cases
    case arr
    then have "merge_key rec kv prev = Some (Inr (set_prop prev (fst kv) (concat_spread ?p (snd kv))))"
      by (simp add: merge_key_def Let_def)
    moreover have "depth (concat_spread ?p (snd kv)) \<le> n"
      using depth_concat_spread [OF p assms(3)] arr by simp
    ultimately show ?thesis using depth_set_prop [OF assms(2)] by simp
  next
    case obj
    with assms(1,3) p obtain v where v: "rec [?p, snd kv] = Some (Inr v)" "depth v \<le> n"
      unfolding rec_ok_def by blast
    from obj v(1) have "merge_key rec kv prev = Some (Inr (set_prop prev (fst kv) v))"
      by (auto simp add: merge_key_def Let_def)
    then show ?thesis using depth_set_prop [OF assms(2) v(2)] by simp
  next
    case other
    then have "merge_key rec kv prev = Some (Inr (set_prop prev (fst kv) (snd kv)))"
      by (auto simp add: merge_key_def Let_def)
    then show ?thesis using depth_set_prop [OF assms(2) assms(3)] by simp
  qed
qed

lemma forEach_key_returns:
  assumes "rec_ok rec n" and "\<forall>kv\<in>set kvs. depth (snd kv) \<le> n" and "depth prev \<le> Suc n"
  shows "\<exists>v. forEach_key rec kvs prev = Some (Inr v) \<and> depth v \<le> Suc n"
  using assms(2,3)
proof (induction kvs arbitrary: prev)
  case Nil
  then show ?case by simp
next
  case (Cons kv kvs)
  from Cons.prems(1) have d: "depth (snd kv) \<le> n" and rest: "\<forall>kv\<in>set kvs. depth (snd kv) \<le> n"
    by simp_all
  from merge_key_returns [OF assms(1) Cons.prems(2) d]
  obtain v where v: "merge_key rec kv prev = Some (Inr v)" "depth v \<le> Suc n" by blast
  from Cons.IH [OF rest v(2)] v(1) show ?case by simp
qed

lemma own_entries_nullish: "nullish v \<Longrightarrow> own_entries v = Inl TypeError"
  by (auto simp: nullish_def)

lemma own_entries_Inr: "\<not> nullish v \<Longrightarrow> \<exists>es. own_entries v = Inr es"
  by (cases v) (simp_all add: nullish_def)

lemma reducer_returns:
  assumes "rec_ok rec n" and "depth obj \<le> Suc n" and "depth prev \<le> Suc n" and "\<not> nullish obj"
  shows "\<exists>v. reducer rec prev obj = Some (Inr v) \<and> depth v \<le> Suc n"
proof -
  from own_entries_Inr [OF assms(4)] obtain es where es: "own_entries obj = Inr es" ..
  have "depth (snd kv) \<le> n" if "kv \<in> set es" for kv
    using depth_own_entries [OF es that] assms(2) by simp
  then have "\<forall>kv\<in>set es. depth (snd kv) \<le> n" by blast
  from forEach_key_returns [OF assms(1) this assms(3)] es show ?thesis
    by (simp add: reducer_def)
qed

lemma reducer_throws: "nullish obj \<Longrightarrow> reducer rec prev obj = Some (Inl TypeError)"
  by (simp add: reducer_def own_entries_nullish)

lemma reduce_objects_returns:
  assumes "rec_ok rec n" and "\<forall>obj\<in>set objs. depth obj \<le> Suc n" and "depth prev \<le> Suc n"
    and "\<forall>obj\<in>set objs. \<not> nullish obj"
  shows "\<exists>v. reduce_objects rec objs prev = Some (Inr v) \<and> depth v \<le> Suc n"
  using assms(2,3,4)
proof (induction objs arbitrary: prev)
  case Nil
  then show ?case by simp
next
  case (Cons obj objs)
  from Cons.prems have o: "depth obj \<le> Suc n" "\<not> nullish obj"
    and rest: "\<forall>obj\<in>set objs. depth obj \<le> Suc n" "\<forall>obj\<in>set objs. \<not> nullish obj" by simp_all
  from reducer_returns [OF assms(1) o(1) Cons.prems(2) o(2)]
  obtain v where v: "reducer rec prev obj = Some (Inr v)" "depth v \<le> Suc n" by blast
  from Cons.IH [OF rest(1) v(2) rest(2)] v(1) show ?case by simp
qed

lemma reduce_objects_throws:
  assumes "rec_ok rec n" and "\<forall>obj\<in>set objs. depth obj \<le> Suc n" and "depth prev \<le> Suc n"
    and "\<exists>obj\<in>set objs. nullish obj"
  shows "reduce_objects rec objs prev = Some (Inl TypeError)"
  using assms(2,3,4)
proof (induction objs arbitrary: prev)
  case Nil
  then show ?case by simp
next
  case (Cons obj objs)
  show ?case
  proof (cases "nullish obj")
    case True
    then show ?thesis by (simp add: reducer_throws)
  next
    case False
    from Cons.prems have o: "depth obj \<le> Suc n"
      and rest: "\<forall>obj\<in>set objs. depth obj \<le> Suc n" by simp_all
    from Cons.prems(3) False have ex: "\<exists>obj\<in>set objs. nullish obj" by simp
    from reducer_returns [OF assms(1) o Cons.prems(2) False]
    obtain v where v: "reducer rec prev obj = Some (Inr v)" "depth v \<le> Suc n" by blast
    from Cons.IH [OF rest v(2) ex] v(1) show ?thesis by simp
  qed
qed

lemma isObject_depth: "isObject v \<Longrightarrow> 0 < depth v"
  by (cases v) (simp_all add: isObject_def)

lemma isObject_not_nullish: "isObject v \<Longrightarrow> \<not> nullish v"
  by (cases v) (simp_all add: isObject_def nullish_def)

lemma rec_ok_mergeDeepN: "rec_ok (mergeDeepN n) n"
proof (induction n)
  case 0
  show ?case using isObject_depth by (auto simp: rec_ok_def)
next
  case (Suc n)
  show ?case
    unfolding rec_ok_def
  proof (intro allI impI)
    fix p oV
    assume a: "isObject p \<and> isObject oV \<and> depth p \<le> Suc n \<and> depth oV \<le> Suc n"
    then have d: "\<forall>obj\<in>set [p, oV]. depth obj \<le> Suc n" by simp
    from a have nn: "\<forall>obj\<in>set [p, oV]. \<not> nullish obj" by (simp add: isObject_not_nullish)
    have "depth (JObj []) \<le> Suc n" by simp
    from reduce_objects_returns [OF Suc d this nn]
    show "\<exists>v. mergeDeepN (Suc n) [p, oV] = Some (Inr v) \<and> depth v \<le> Suc n" by simp
  qed
qed

lemma mergeDeepN_returns:
  assumes "\<forall>obj\<in>set objs. depth obj \<le> Suc n" and "\<forall>obj\<in>set objs. \<not> nullish obj"
  shows "\<exists>v. mergeDeepN (Suc n) objs = Some (Inr v)"
proof -
  have "depth (JObj []) \<le> Suc n" by simp
  from reduce_objects_returns [OF rec_ok_mergeDeepN assms(1) this assms(2)]
  show ?thesis by auto
qed

lemma mergeDeepN_throws:
  assumes "\<forall>obj\<in>set objs. depth obj \<le> Suc n" and "\<exists>obj\<in>set objs. nullish obj"
  shows "mergeDeepN (Suc n) objs = Some (Inl TypeError)"
proof -
  have "depth (JObj []) \<le> Suc n" by simp
  from reduce_objects_throws [OF rec_ok_mergeDeepN assms(1) this assms(2)]
  show ?thesis by simp
qed

lemma depth_le_fuel: "\<forall>obj\<in>set objs. depth obj \<le> Suc (fold max (map depth objs) 0)"
  using fold_max_ge [of _ "map depth objs" 0] by fastforce

lemma mergeDeep_returns: "\<forall>obj\<in>set objs. \<not> nullish obj \<Longrightarrow> \<exists>v. mergeDeep objs = Some (Inr v)"
  unfolding mergeDeep_def by (rule mergeDeepN_returns [OF depth_le_fuel])

lemma mergeDeep_throws: "\<exists>obj\<in>set objs. nullish obj \<Longrightarrow> mergeDeep objs = Some (Inl TypeError)"
  unfolding mergeDeep_def by (rule mergeDeepN_throws [OF depth_le_fuel])


section \<open>Properties and merges\<close>

subsection \<open>Reading after writing\<close>

lemma isObject_cases: "isObject v \<longleftrightarrow> (\<exists>xs ps. v = JArr xs ps) \<or> (\<exists>kvs. v = JObj kvs)"
  by (cases v) (simp_all add: isObject_def)

lemma map_of_set_prop:
  "isObject v \<Longrightarrow> map_of (named_props (set_prop v k x)) = (map_of (named_props v))(k \<mapsto> x)"
  by (auto simp: isObject_cases update_conv')

lemma map_of_delete_prop:
  "map_of (named_props (delete_prop v k)) = (map_of (named_props v))(k := None)"
  by (cases v) (simp_all add: delete_conv')

lemma isObject_set_prop [simp]: "isObject (set_prop v k x) = isObject v"
  by (cases v) (simp_all add: isObject_def)

lemma isObject_delete_prop [simp]: "isObject (delete_prop v k) = isObject v"
  by (cases v) (simp_all add: isObject_def)

lemma get_prop_set_prop:
  "isObject v \<Longrightarrow> get_prop (set_prop v k x) k' = (if k' = k then x else get_prop v k')"
  by (simp add: get_prop_def map_of_set_prop)

lemma has_own_set_prop:
  "isObject v \<Longrightarrow> has_own (set_prop v k x) k' \<longleftrightarrow> k' = k \<or> has_own v k'"
  by (simp add: has_own_def map_of_set_prop)

lemma get_prop_delete_prop:
  "get_prop (delete_prop v k) k' = (if k' = k then JUndefined else get_prop v k')"
  by (simp add: get_prop_def map_of_delete_prop)

lemma has_own_delete_prop: "has_own (delete_prop v k) k' \<longleftrightarrow> k' \<noteq> k \<and> has_own v k'"
  by (simp add: has_own_def map_of_delete_prop)

lemma isObject_typeof: "isObject v \<Longrightarrow> typeof_object v \<and> v \<noteq> JNull \<and> v \<noteq> JUndefined"
  by (auto simp: isObject_cases)

subsection \<open>The two passes of a merge of two objects\<close>

lemma update_new_key: "k \<notin> fst ` set ps \<Longrightarrow> AList.update k x ps = ps @ [(k, x)]"
  by (induction ps) auto

lemma merge_key_new:
  assumes "fst kv \<notin> fst ` set ps"
  shows "merge_key rec kv (JObj ps) = Some (Inr (JObj (ps @ [kv])))"
proof -
  from assms have "map_of ps (fst kv) = None" by (simp add: map_of_eq_None_iff)
  then have "get_prop (JObj ps) (fst kv) = JUndefined" by (simp add: get_prop_def)
  then show ?thesis using assms
    by (simp add: merge_key_def Let_def isObject_def update_new_key)
qed

lemma forEach_key_copies:
  assumes "distinct (map fst es)" and "fst ` set es \<inter> fst ` set ps = {}"
  shows "forEach_key rec es (JObj ps) = Some (Inr (JObj (ps @ es)))"
  using assms
proof (induction es arbitrary: ps)
  case Nil
  then show ?case by simp
next
  case (Cons kv es)
  from Cons.prems(2) have new: "fst kv \<notin> fst ` set ps" by auto
  from Cons.prems have d: "distinct (map fst es)"
    and dis: "fst ` set es \<inter> fst ` set (ps @ [kv]) = {}" by auto
  from Cons.IH [OF d dis] merge_key_new [OF new, of rec] show ?case by simp
qed

lemma merge_key_sets:
  "merge_key rec kv prev = Some (Inr v) \<Longrightarrow> \<exists>x. v = set_prop prev (fst kv) x"
  by (auto simp: merge_key_def Let_def split: if_splits option.splits sum.splits)

lemma forEach_key_other_keys:
  assumes "forEach_key rec es prev = Some (Inr v)" and "k \<notin> fst ` set es" and "isObject prev"
  shows "map_of (named_props v) k = map_of (named_props prev) k \<and> isObject v"
  using assms
proof (induction es arbitrary: prev)
  case Nil
  then show ?case by simp
next
  case (Cons kv es)
  from Cons.prems(1) obtain p' where p': "merge_key rec kv prev = Some (Inr p')"
    and rest: "forEach_key rec es p' = Some (Inr v)"
    by (auto split: option.splits sum.splits)
  from merge_key_sets [OF p'] obtain x where x: "p' = set_prop prev (fst kv) x" ..
  from Cons.prems(2) have ne: "k \<noteq> fst kv" and k: "k \<notin> fst ` set es" by auto
  from x Cons.prems(3) have obj: "isObject p'" by simp
  from x ne Cons.prems(3) have "map_of (named_props p') k = map_of (named_props prev) k"
    by (simp add: map_of_set_prop)
  with Cons.IH [OF rest k obj] show ?case by simp
qed

lemma mergeDeep_keeps_other_keys:
  assumes "mergeDeep [JObj kvs, JObj akvs] = Some (Inr doc)" and "k \<notin> fst ` set akvs"
  shows "get_prop doc k = get_prop (JObj kvs) k \<and> has_own doc k = has_own (JObj kvs) k"
proof -
  let ?rec = "mergeDeepN (fold max (map depth [JObj kvs, JObj akvs]) 0)"
  have copy: "reducer ?rec (JObj []) (JObj kvs) = Some (Inr (JObj (AList.clearjunk kvs)))"
    using forEach_key_copies [of "AList.clearjunk kvs" "[]" ?rec]
    by (simp add: reducer_def distinct_clearjunk)
  with assms(1) have second:
    "forEach_key ?rec (AList.clearjunk akvs) (JObj (AList.clearjunk kvs)) = Some (Inr doc)"
    unfolding mergeDeep_def
    by (simp add: reducer_def split: option.splits sum.splits)
  from assms(2) clearjunk_subset [of akvs] have "k \<notin> fst ` set (AList.clearjunk akvs)" by auto
  from forEach_key_other_keys [OF second this]
  have "map_of (named_props doc) k = map_of kvs k"
    by (simp add: isObject_def map_of_clearjunk)
  then show ?thesis by (simp add: get_prop_def has_own_def)
qed

subsection \<open>What setDateTimeString returns\<close>

lemma setDateTimeString_scalar:
  "\<not> typeof_object v \<Longrightarrow> setDateTimeString h v = Inr (now_iso h)"
  by (simp add: setDateTimeString_def)

lemma setDateTimeString_time:
  assumes "isObject v" and "\<not> has_own v ''hasOwnProperty''"
    and "time_usable (get_prop v ''time'')" and "new_Date h (get_prop v ''time'') = Some t"
  shows "setDateTimeString h v = Inr (iso_string t)"
proof -
  from assms(3) have "get_prop v ''time'' \<noteq> JUndefined" by auto
  then have "has_own v ''time''" by (auto simp: get_prop_def has_own_def split: option.splits)
  with assms isObject_typeof [OF assms(1)] show ?thesis
    by (simp add: setDateTimeString_def call_hasOwnProperty_def toISOString_def)
qed

lemma setDateTimeString_now:
  assumes "isObject v" and "\<not> has_own v ''hasOwnProperty''"
    and "\<not> time_usable (get_prop v ''time'')"
  shows "setDateTimeString h v = Inr (now_iso h)"
  using assms isObject_typeof [OF assms(1)]
  by (simp add: setDateTimeString_def call_hasOwnProperty_def)

lemma setDateTimeString_depends:
  assumes "isObject v" and "isObject w"
    and "has_own w ''hasOwnProperty'' = has_own v ''hasOwnProperty''"
    and "has_own w ''time'' = has_own v ''time''"
    and "get_prop w ''time'' = get_prop v ''time''"
  shows "setDateTimeString h w = setDateTimeString h v"
  using assms isObject_typeof [OF assms(1)] isObject_typeof [OF assms(2)]
  by (simp add: setDateTimeString_def call_hasOwnProperty_def)

subsection \<open>The object branch of the second mapper\<close>

lemma isObject_JObj [simp]: "isObject (JObj kvs)"
  by (simp add: isObject_def)

lemma isObject_JArr [simp]: "isObject (JArr xs ps)"
  by (simp add: isObject_def)

lemma plain_set_prop [simp]: "plain (set_prop v k x) = plain v"
  by (cases v) simp_all

lemma plain_delete_prop [simp]: "plain (delete_prop v k) = plain v"
  by (cases v) simp_all

lemma shape_object:
  assumes o: "isObject value" and ts: "setDateTimeString h value = Inr ts"
  shows "\<exists>v. shape h value = Inr v \<and> isObject v \<and> plain v = plain value
     \<and> get_prop v ''message''
         = (if truthy (get_prop value ''msg'') then get_prop value ''msg'' else JStr ''-'')
     \<and> get_prop v ''@timestamp'' = JStr ts
     \<and> (has_own v ''msg'' \<longleftrightarrow> has_own value ''msg'' \<and> \<not> truthy (get_prop value ''msg''))
     \<and> (has_own v ''time'' \<longleftrightarrow> has_own value ''time'' \<and> \<not> truthy (get_prop value ''time''))"
proof -
  define v1 where "v1 = set_prop value ''message'' (js_or (get_prop value ''msg'') (JStr ''-''))"
  define v2 where "v2 = (if truthy (get_prop v1 ''msg'') then delete_prop v1 ''msg'' else v1)"
  define v3 where "v3 = set_prop v2 ''@timestamp'' (JStr ts)"
  define v4 where "v4 = (if truthy (get_prop v3 ''time'') then delete_prop v3 ''time'' else v3)"
  have o1: "isObject v1" using o by (simp add: v1_def)
  have o2: "isObject v2" using o1 by (simp add: v2_def)
  have o3: "isObject v3" using o2 by (simp add: v3_def)
  have o4: "isObject v4" using o3 by (simp add: v4_def)
  have g1: "get_prop v1 k = (if k = ''message'' then js_or (get_prop value ''msg'') (JStr ''-'')
                            else get_prop value k)" for k
    by (simp add: v1_def get_prop_set_prop [OF o])
  have h1: "has_own v1 k \<longleftrightarrow> k = ''message'' \<or> has_own value k" for k
    by (simp add: v1_def has_own_set_prop [OF o])
  have g2: "get_prop v2 k = (if k = ''msg'' \<and> truthy (get_prop value ''msg'') then JUndefined
                            else get_prop v1 k)" for k
    by (simp add: v2_def get_prop_delete_prop g1)
  have h2: "has_own v2 k \<longleftrightarrow> \<not> (k = ''msg'' \<and> truthy (get_prop value ''msg'')) \<and> has_own v1 k" for k
    by (auto simp add: v2_def has_own_delete_prop g1)
  have g3: "get_prop v3 k = (if k = ''@timestamp'' then JStr ts else get_prop v2 k)" for k
    by (simp add: v3_def get_prop_set_prop [OF o2])
  have h3: "has_own v3 k \<longleftrightarrow> k = ''@timestamp'' \<or> has_own v2 k" for k
    by (simp add: v3_def has_own_set_prop [OF o2])
  have g4: "get_prop v4 k = (if k = ''time'' \<and> truthy (get_prop value ''time'') then JUndefined
                            else get_prop v3 k)" for k
    by (simp add: v4_def get_prop_delete_prop g3 g2 g1)
  have h4: "has_own v4 k \<longleftrightarrow> \<not> (k = ''time'' \<and> truthy (get_prop value ''time'')) \<and> has_own v3 k" for k
    by (auto simp add: v4_def has_own_delete_prop g3 g2 g1)
  have "setDateTimeString h v2 = setDateTimeString h value"
    by (rule setDateTimeString_depends [OF o o2]) (simp_all add: h2 h1 g2 g1)
  with ts have ts2: "setDateTimeString h v2 = Inr ts" by simp
  have "shape h value =
      (case setDateTimeString h v2 of
         Inl e \<Rightarrow> Inl e
       | Inr ts \<Rightarrow>
           (let v3 = set_prop v2 ''@timestamp'' (JStr ts)
            in Inr (if truthy (get_prop v3 ''time'') then delete_prop v3 ''time'' else v3)))"
    using isObject_typeof [OF o] unfolding shape_def v1_def v2_def Let_def by simp
  then have sh: "shape h value = Inr v4"
    unfolding ts2 by (simp add: Let_def v3_def v4_def)
  have p: "plain v4 = plain value" by (simp add: v4_def v3_def v2_def v1_def)
  have "get_prop v4 ''message''
         = (if truthy (get_prop value ''msg'') then get_prop value ''msg'' else JStr ''-'')"
    by (simp add: g4 g3 g2 g1 js_or_def)
  moreover have "get_prop v4 ''@timestamp'' = JStr ts" by (simp add: g4 g3)
  moreover have "has_own v4 ''msg'' \<longleftrightarrow> has_own value ''msg'' \<and> \<not> truthy (get_prop value ''msg'')"
    by (auto simp add: h4 h3 h2 h1)
  moreover have "has_own v4 ''time'' \<longleftrightarrow> has_own value ''time'' \<and> \<not> truthy (get_prop value ''time'')"
    by (auto simp add: h4 h3 h2 h1)
  ultimately show ?thesis using sh o4 p by blast
qed

subsection \<open>The second mapper on an object line\<close>

lemma lineMapper_object:
  assumes "shape h (JObj kvs) = Inr v" and "mergeDeep [v, additional] = Some (Inr doc)"
  shows "lineMapper h additional line (Some (JObj kvs)) = Some (Inr (forwarded doc))"
  using assms by (simp add: lineMapper_def)

lemma plain_cases: "plain v \<Longrightarrow> \<exists>kvs. v = JObj kvs"
  by (cases v) simp_all

lemma lineMapper_merges_shape:
  assumes ts: "setDateTimeString h (JObj kvs) = Inr ts"
  shows "\<exists>doc. lineMapper h (JObj akvs) line (Some (JObj kvs)) = Some (Inr (forwarded doc))
     \<and> (''message'' \<notin> fst ` set akvs \<longrightarrow> get_prop doc ''message''
           = (if truthy (get_prop (JObj kvs) ''msg'') then get_prop (JObj kvs) ''msg'' else JStr ''-''))
     \<and> (''@timestamp'' \<notin> fst ` set akvs \<longrightarrow> get_prop doc ''@timestamp'' = JStr ts)
     \<and> (''msg'' \<notin> fst ` set akvs \<longrightarrow>
           (has_own doc ''msg'' \<longleftrightarrow> has_own (JObj kvs) ''msg'' \<and> \<not> truthy (get_prop (JObj kvs) ''msg'')))
     \<and> (''time'' \<notin> fst ` set akvs \<longrightarrow>
           (has_own doc ''time'' \<longleftrightarrow> has_own (JObj kvs) ''time'' \<and> \<not> truthy (get_prop (JObj kvs) ''time'')))"
proof -
  from shape_object [OF isObject_JObj ts] obtain v where
    sh: "shape h (JObj kvs) = Inr v" and pl: "plain v"
    and m: "get_prop v ''message''
         = (if truthy (get_prop (JObj kvs) ''msg'') then get_prop (JObj kvs) ''msg'' else JStr ''-'')"
    and t: "get_prop v ''@timestamp'' = JStr ts"
    and hm: "has_own v ''msg'' \<longleftrightarrow> has_own (JObj kvs) ''msg'' \<and> \<not> truthy (get_prop (JObj kvs) ''msg'')"
    and ht: "has_own v ''time'' \<longleftrightarrow> has_own (JObj kvs) ''time'' \<and> \<not> truthy (get_prop (JObj kvs) ''time'')"
    by auto
  from plain_cases [OF pl] obtain kvs' where v: "v = JObj kvs'" ..
  have "\<forall>obj\<in>set [v, JObj akvs]. \<not> nullish obj" by (simp add: v nullish_def)
  from mergeDeep_returns [OF this] obtain doc where doc: "mergeDeep [v, JObj akvs] = Some (Inr doc)" ..
  have keep: "get_prop doc k = get_prop v k \<and> has_own doc k = has_own v k" if "k \<notin> fst ` set akvs" for k
    using mergeDeep_keeps_other_keys [OF doc [unfolded v] that] by (simp add: v)
  from lineMapper_object [OF sh doc]
  have "lineMapper h (JObj akvs) line (Some (JObj kvs)) = Some (Inr (forwarded doc))" .
  with keep m t hm ht show ?thesis by auto
qed

subsection \<open>Lines on which setDateTimeString returns\<close>

lemma setDateTimeString_returns:
  assumes "v \<noteq> JNull" and "\<not> has_own v ''hasOwnProperty''"
    and "time_usable (get_prop v ''time'') \<longrightarrow> new_Date h (get_prop v ''time'') \<noteq> None"
  shows "\<exists>ts. setDateTimeString h v = Inr ts"
proof (cases "typeof_object v")
  case True
  with assms(1) have o: "isObject v" by (cases v) simp_all
  show ?thesis
  proof (cases "time_usable (get_prop v ''time'')")
    case True
    with assms(3) obtain t where "new_Date h (get_prop v ''time'') = Some t" by auto
    from setDateTimeString_time [OF o assms(2) True this] show ?thesis by blast
  next
    case False
    from setDateTimeString_now [OF o assms(2) False] show ?thesis by blast
  qed
next
  case False
  then show ?thesis by (simp add: setDateTimeString_scalar)
qed

lemma shape_lib_returns:
  assumes "setDateTimeString h v = Inr ts"
  shows "\<exists>doc. shape_lib h v = Inr doc"
  using assms by (simp add: shape_lib_def)

lemma shape_returns:
  assumes "v \<noteq> JNull" and "setDateTimeString h v = Inr ts"
  shows "\<exists>w. shape h v = Inr w \<and> \<not> nullish w"
proof (cases "typeof_object v")
  case True
  with assms(1) have o: "isObject v" by (cases v) simp_all
  from shape_object [OF o assms(2)]
  obtain w where "shape h v = Inr w" "isObject w" by blast
  then show ?thesis using isObject_not_nullish by blast
next
  case False
  with assms(2) show ?thesis
    by (simp add: shape_def nullish_def)
qed

lemma mergeDeep_total: "\<exists>r. mergeDeep objs = Some r"
proof (cases "\<exists>obj\<in>set objs. nullish obj")
  case True
  from mergeDeep_throws [OF this] show ?thesis by simp
next
  case False
  then have "\<forall>obj\<in>set objs. \<not> nullish obj" by simp
  from mergeDeep_returns [OF this] show ?thesis by blast
qed

lemma lineMapper_lib_value:
  assumes "value \<noteq> JNull" and "\<forall>b. value \<noteq> JBool b"
  shows "lineMapper_lib h line (Some value)
     = (case shape_lib h value of Inl e \<Rightarrow> Inl e | Inr doc \<Rightarrow> Inr (forwarded doc))"
  using assms by (cases "value") (auto simp add: lineMapper_lib_def)

lemma lineMapper_value:
  assumes "value \<noteq> JNull" and "\<forall>b. value \<noteq> JBool b"
  shows "lineMapper h additional line (Some value)
     = (case shape h value of
          Inl e \<Rightarrow> Some (Inl e)
        | Inr v \<Rightarrow>
            (case mergeDeep [v, additional] of
               None \<Rightarrow> None
             | Some (Inl e) \<Rightarrow> Some (Inl e)
             | Some (Inr doc) \<Rightarrow> Some (Inr (forwarded doc))))"
  using assms by (cases "value") (auto simp add: lineMapper_def)

subsection \<open>Dates of the examples\<close>

lemma iso_examples:
  "iso_string 1704067200000 = ''2024-01-01T00:00:00.000Z''"
  "iso_string 1709632800000 = ''2024-03-05T10:00:00.000Z''"
  "iso_string (-5) = ''1969-12-31T23:59:59.995Z''"
  "iso_string 0 = ''1970-01-01T00:00:00.000Z''"
  by code_simp+

section \<open>The claims\<close>

subsection \<open>How a line ends\<close>

text \<open>
  C1, as the code has it. A line that does not parse ends in neither a document nor an
  event: the mapper writes it to the console and returns nothing. A boolean or \<open>null\<close>
  line ends in exactly one \<open>unknown\<close> event and no document. Every other line whose
  value has no own \<open>hasOwnProperty\<close> and whose \<open>time\<close>, if it is a non-empty string
  or a non-negative number, is a valid date (so every string and number line) ends in a
  document and no event; in the second source file this needs an \<open>additionalObject\<close>
  that is neither \<open>null\<close> nor \<open>undefined\<close>. Nothing is said of the other object
  lines.
\<close>

theorem line_mapper_endings:
  assumes "\<forall>value. parsed = Some value \<longrightarrow>
             \<not> has_own value ''hasOwnProperty''
             \<and> (time_usable (get_prop value ''time'')
                  \<longrightarrow> new_Date h (get_prop value ''time'') \<noteq> None)"
    and "\<not> nullish additional"
  shows "\<exists>out out'. lineMapper_lib h line parsed = Inr out
     \<and> lineMapper h additional line parsed = Some (Inr out')
     \<and> (case parsed of
          None \<Rightarrow> out = logged line \<and> out' = logged line
        | Some (JBool b) \<Rightarrow> out = ignored line ''Boolean value ignored'' \<and> out' = out
        | Some JNull \<Rightarrow> out = ignored line ''Null value ignored'' \<and> out' = out
        | Some value \<Rightarrow> (\<exists>doc doc'. out = forwarded doc \<and> out' = forwarded doc'))"
proof (cases parsed)
  case None
  then show ?thesis by (simp add: lineMapper_lib_def lineMapper_def)
next
  case (Some pv)
  with assms(1) have nh: "\<not> has_own pv ''hasOwnProperty''"
    and tv: "time_usable (get_prop pv ''time'') \<longrightarrow> new_Date h (get_prop pv ''time'') \<noteq> None"
    by simp_all
  consider (is_bool) b where "pv = JBool b" | (is_null) "pv = JNull"
    | (other) "pv \<noteq> JNull" "\<forall>b. pv \<noteq> JBool b"
    by blast
  then show ?thesis
  proof cases
    case is_bool
    with Some show ?thesis by (simp add: lineMapper_lib_def lineMapper_def)
  next
    case is_null
    with Some show ?thesis by (simp add: lineMapper_lib_def lineMapper_def)
  next
    case other
    from setDateTimeString_returns [OF other(1) nh tv]
    obtain ts where ts: "setDateTimeString h pv = Inr ts" ..
    from shape_lib_returns [OF ts] obtain doc where d: "shape_lib h pv = Inr doc" ..
    from shape_returns [OF other(1) ts] obtain w where
      w: "shape h pv = Inr w" "\<not> nullish w" by blast
    from w(2) assms(2) have "\<forall>obj\<in>set [w, additional]. \<not> nullish obj" by simp
    from mergeDeep_returns [OF this] obtain doc' where
      d': "mergeDeep [w, additional] = Some (Inr doc')" ..
    have 1: "lineMapper_lib h line parsed = Inr (forwarded doc)"
      by (simp add: Some lineMapper_lib_value [OF other] d)
    have 2: "lineMapper h additional line parsed = Some (Inr (forwarded doc'))"
      by (simp add: Some lineMapper_value [OF other] w(1) d')
    from other have "(case Some pv of
          None \<Rightarrow> forwarded doc = logged line \<and> forwarded doc' = logged line
        | Some (JBool b) \<Rightarrow> forwarded doc = ignored line ''Boolean value ignored'' \<and> forwarded doc' = forwarded doc
        | Some JNull \<Rightarrow> forwarded doc = ignored line ''Null value ignored'' \<and> forwarded doc' = forwarded doc
        | Some pv \<Rightarrow> (\<exists>d d'. forwarded doc = forwarded d \<and> forwarded doc' = forwarded d'))"
      by (cases pv) auto
    with 1 2 Some show ?thesis by blast
  qed
qed

text \<open>
  C1 as stated fails: an unparseable line ends in neither a document nor an event, and the
  mapper throws on well-formed object lines: on a \<open>time\<close> beyond the range of dates,
  and in the second source file on every line that is to be forwarded when
  \<open>opts.additionalObject\<close> is missing.
\<close>

theorem line_mapper_endings_counterexample:
  "lineMapper_lib sample_host ''not json'' None
     = Inr \<lparr>document = None, emitted = [], console = [''not json'']\<rparr>
   \<and> lineMapper_lib sample_host (''{'' @ quoted ''time'' @ '':8640000000000001}'')
        (Some (JObj [(''time'', JNum 8640000000000001)]))
     = Inl RangeError
   \<and> lineMapper sample_host (JObj []) (''{'' @ quoted ''time'' @ '':8640000000000001}'')
        (Some (JObj [(''time'', JNum 8640000000000001)]))
     = Some (Inl RangeError)
   \<and> lineMapper sample_host JUndefined ''{}'' (Some (JObj [])) = Some (Inl TypeError)"
  by code_simp

theorem line_mapper_endings_witness:
  "\<not> has_own (JObj [(''msg'', JStr ''hello''), (''time'', JNum 1704067200000)]) ''hasOwnProperty''
   \<and> new_Date sample_host
         (get_prop (JObj [(''msg'', JStr ''hello''), (''time'', JNum 1704067200000)]) ''time'') \<noteq> None
   \<and> \<not> nullish (JObj [])
   \<and> (\<exists>doc doc'.
         lineMapper_lib sample_host
             (''{'' @ quoted ''msg'' @ '':'' @ quoted ''hello'' @ '','' @ quoted ''time''
                @ '':1704067200000}'')
             (Some (JObj [(''msg'', JStr ''hello''), (''time'', JNum 1704067200000)]))
           = Inr (forwarded doc)
         \<and> lineMapper sample_host (JObj [])
             (''{'' @ quoted ''msg'' @ '':'' @ quoted ''hello'' @ '','' @ quoted ''time''
                @ '':1704067200000}'')
             (Some (JObj [(''msg'', JStr ''hello''), (''time'', JNum 1704067200000)]))
           = Some (Inr (forwarded doc')))"
proof -
  let ?v = "JObj [(''msg'', JStr ''hello''), (''time'', JNum 1704067200000)]"
  have a: "\<not> has_own ?v ''hasOwnProperty''" by (simp add: has_own_def)
  have b: "new_Date sample_host (get_prop ?v ''time'') \<noteq> None"
    by (simp add: get_prop_def time_clip_def)
  from a b have ab: "\<forall>value. Some ?v = Some value \<longrightarrow>
             \<not> has_own value ''hasOwnProperty''
             \<and> (time_usable (get_prop value ''time'')
                  \<longrightarrow> new_Date sample_host (get_prop value ''time'') \<noteq> None)"
    by simp
  have c: "\<not> nullish (JObj [])" by (simp add: nullish_def)
  from line_mapper_endings [OF ab c] a b c show ?thesis by auto
qed

text \<open>The scenario of the specification for a line that is a JSON string.\<close>

lemma scenario_string:
  "lineMapper_lib sample_host (quoted ''just a string'') (Some (JStr ''just a string''))
     = Inr (forwarded (JObj [(''data'', JStr ''just a string''),
                             (''@timestamp'', JStr ''2024-03-05T10:00:00.000Z'')]))
   \<and> lineMapper sample_host (JObj []) (quoted ''just a string'') (Some (JStr ''just a string''))
     = Some (Inr (forwarded (JObj [(''data'', JStr ''just a string''),
                                   (''@timestamp'', JStr ''2024-03-05T10:00:00.000Z'')])))"
  by code_simp

subsection \<open>Unparseable lines\<close>

text \<open>
  C2, as the code has it: for every line that \<open>JSON.parse\<close> rejects, both mappers return
  no document and emit no event; they write the raw line to the console and nothing else
  (the \<open>emit('unknown', line, error)\<close> of the catch branch is commented out).
\<close>

theorem unparseable_line_only_logged:
  "lineMapper_lib h line None = Inr \<lparr>document = None, emitted = [], console = [line]\<rparr>
   \<and> lineMapper h additional line None
     = Some (Inr \<lparr>document = None, emitted = [], console = [line]\<rparr>)"
  by (simp add: lineMapper_lib_def lineMapper_def logged_def)

text \<open>C2 as stated fails: on the unparseable line \<open>not json\<close> no event is emitted, where
  the claim has exactly one "invalid JSON" event.\<close>

theorem unparseable_line_counterexample:
  "lineMapper_lib sample_host ''not json'' None
     = Inr \<lparr>document = None, emitted = [], console = [''not json'']\<rparr>
   \<and> lineMapper sample_host (JObj []) ''not json'' None
     = Some (Inr \<lparr>document = None, emitted = [], console = [''not json'']\<rparr>)"
  by (simp add: lineMapper_lib_def lineMapper_def logged_def)

subsection \<open>Booleans and null\<close>

text \<open>
  C9: for every line that decodes to \<open>true\<close>, \<open>false\<close> or \<open>null\<close>, both mappers emit
  exactly one \<open>unknown\<close> event, carrying the line and the reason "Boolean value ignored"
  or "Null value ignored", and return no document.
\<close>

theorem boolean_and_null_lines_ignored:
  "lineMapper_lib h line (Some (JBool b))
     = Inr \<lparr>document = None, emitted = [(''unknown'', line, ''Boolean value ignored'')], console = []\<rparr>
   \<and> lineMapper_lib h line (Some JNull)
     = Inr \<lparr>document = None, emitted = [(''unknown'', line, ''Null value ignored'')], console = []\<rparr>
   \<and> lineMapper h additional line (Some (JBool b))
     = Some (Inr \<lparr>document = None, emitted = [(''unknown'', line, ''Boolean value ignored'')], console = []\<rparr>)
   \<and> lineMapper h additional line (Some JNull)
     = Some (Inr \<lparr>document = None, emitted = [(''unknown'', line, ''Null value ignored'')], console = []\<rparr>)"
  by (simp add: lineMapper_lib_def lineMapper_def ignored_def)

subsection \<open>TLS verification\<close>

text \<open>
  C10: whatever the options, the client options are built with
  \<open>tls.rejectUnauthorized = false\<close>; the \<open>rejectUnauthorized\<close> option changes nothing in
  them, and so neither does \<open>LOG_ES_REJECT_UNAUTHORIZED\<close>, which reaches the client only
  through that option.
\<close>

theorem client_never_verifies_certificates:
  "client_tls_rejectUnauthorized (clientOpts opts) = False
   \<and> clientOpts (opts\<lparr>rejectUnauthorized := r\<rparr>) = clientOpts opts
   \<and> client_tls_rejectUnauthorized (clientOpts (start_options env)) = False"
  by (simp add: clientOpts_def)

subsection \<open>setDateTimeString\<close>

text \<open>
  C5 at its failing inputs: \<open>setDateTimeString\<close> does not return a timestamp for every
  object. A \<open>time\<close> that passes the test (a non-negative number, a non-empty string) but
  is no valid date makes \<open>toISOString\<close> throw a RangeError, and an own property named
  \<open>hasOwnProperty\<close> makes the call of that method throw a TypeError.
\<close>

theorem setDateTimeString_throws_on_invalid_date:
  "setDateTimeString sample_host (JObj [(''time'', JNum 8640000000000001)]) = Inl RangeError
   \<and> setDateTimeString sample_host (JObj [(''time'', JStr ''yesterday'')]) = Inl RangeError
   \<and> setDateTimeString sample_host (JObj [(''hasOwnProperty'', JNum 1)]) = Inl TypeError"
  by (simp add: setDateTimeString_def call_hasOwnProperty_def has_own_def get_prop_def
      toISOString_def time_clip_def sample_host_def)

subsection \<open>getIndexName\<close>

text \<open>The example of the specification: the placeholder becomes the date of the timestamp.\<close>

lemma getIndexName_example:
  "getIndexName h (IndexTemplate ''logs-%{DATE}'') (JStr ''2024-03-05T10:00:00.000Z'')
     = Inr ''logs-2024-03-05''"
  by (simp add: getIndexName_def replace_first_def)

text \<open>
  C6 at its failing inputs. \<open>null\<close> does not support substring extraction, and
  \<open>getIndexName\<close> throws a TypeError on it instead of substituting the empty string; the
  mapper of \<open>src/lib.js\<close> forwards a document whose \<open>@timestamp\<close> is \<open>null\<close>, and
  \<open>onDocument\<close> passes that value on. And a timestamp string is used as a replacement
  pattern: \<open>$&\<close> puts the placeholder back instead of the two characters.
\<close>

theorem getIndexName_throws_on_null:
  "getIndexName sample_host (IndexTemplate ''logs-%{DATE}'') JNull = Inl TypeError
   \<and> lineMapper_lib sample_host (''{'' @ quoted ''@timestamp'' @ '':null}'')
         (Some (JObj [(''@timestamp'', JNull)]))
       = Inr (forwarded (JObj [(''@timestamp'', JNull)]))
   \<and> onDocument sample_host (IndexTemplate ''logs-%{DATE}'') JUndefined (JObj [(''@timestamp'', JNull)])
       = Inl TypeError
   \<and> getIndexName sample_host (IndexTemplate ''logs-%{DATE}'') (JStr ''$&'') = Inr ''logs-%{DATE}''"
  by (simp add: getIndexName_def onDocument_def lineMapper_lib_def shape_lib_def get_prop_def
      js_or_def replace_first_def)

subsection \<open>mergeDeep\<close>

text \<open>The example of the specification.\<close>

lemma mergeDeep_example:
  "mergeDeep
     [JObj [(''a'', JObj [(''b'', JNum 1)]), (''list'', JArr [JNum 1, JNum 2] [])],
      JObj [(''a'', JObj [(''c'', JNum 2)]), (''list'', JArr [JNum 3] [])]]
   = Some (Inr (JObj [(''a'', JObj [(''b'', JNum 1), (''c'', JNum 2)]),
                      (''list'', JArr [JNum 1, JNum 2, JNum 3] [])]))"
  by (simp add: mergeDeep_def reducer_def merge_key_def get_prop_def isObject_def concat_spread_def)

text \<open>
  C7 at its failing input: merging \<open>{list:[1]}\<close> with \<open>{list:[[2]]}\<close> gives
  \<open>{list:[1,2]}\<close>. The arrays are not concatenated (that is \<open>[1,[2]]\<close>): the spread in
  \<open>pVal.concat(...oVal)\<close> flattens the elements of the later array that are arrays.
\<close>

theorem mergeDeep_flattens_nested_arrays:
  "mergeDeep [JObj [(''list'', JArr [JNum 1] [])], JObj [(''list'', JArr [JArr [JNum 2] []] [])]]
     = Some (Inr (JObj [(''list'', JArr [JNum 1, JNum 2] [])]))"
  by (simp add: mergeDeep_def reducer_def merge_key_def get_prop_def isObject_def concat_spread_def)

subsection \<open>From time to @timestamp\<close>

text \<open>The scenario of the specification, on the second mapper with no additional fields.\<close>

lemma scenario_hello:
  "lineMapper sample_host (JObj [])
      (''{'' @ quoted ''msg'' @ '':'' @ quoted ''hello'' @ '','' @ quoted ''time'' @ '':''
         @ quoted ''2024-01-01T00:00:00.000Z'' @ ''}'')
      (Some (JObj [(''msg'', JStr ''hello''), (''time'', JStr ''2024-01-01T00:00:00.000Z'')]))
   = Some (Inr (forwarded (JObj [(''message'', JStr ''hello''),
                                 (''@timestamp'', JStr ''2024-01-01T00:00:00.000Z'')])))"
  by code_simp




subsection \<open>From msg to message\<close>




subsection \<open>onDocument with create\<close>




end
